theory Spec2Isabelle
  imports Main
begin

section \<open>JavaScript strings and the case conversions of the runtime\<close>

text \<open>
  A JavaScript string is a sequence of UTF-16 code units, and \<open>charAt\<close>, \<open>slice\<close>,
  \<open>split\<close> and \<open>replace\<close> count code units. A code unit is modelled by its number.
  \<open>js\<close> turns a literal of the theory into such a string.
\<close>

type_synonym jsstring = "nat list"

definition js :: "string \<Rightarrow> jsstring" where
  "js s = map of_char s"

text \<open>The character classes of the two regular expressions of the generator.\<close>

definition is_AZ :: "nat \<Rightarrow> bool" where
  \<comment> \<open>\<open>[A-Z]\<close>\<close>
  "is_AZ c \<longleftrightarrow> 65 \<le> c \<and> c \<le> 90"

definition is_az :: "nat \<Rightarrow> bool" where
  \<comment> \<open>\<open>[a-z]\<close>\<close>
  "is_az c \<longleftrightarrow> 97 \<le> c \<and> c \<le> 122"

definition is_space :: "nat \<Rightarrow> bool" where
  \<comment> \<open>\<open>\s\<close>: the WhiteSpace and LineTerminator code points of ECMAScript\<close>
  "is_space c \<longleftrightarrow>
     c = 9 \<or> c = 10 \<or> c = 11 \<or> c = 12 \<or> c = 13 \<or> c = 32 \<or> c = 160 \<or> c = 5760 \<or>
     (8192 \<le> c \<and> c \<le> 8202) \<or> c = 8232 \<or> c = 8233 \<or> c = 8239 \<or> c = 8287 \<or>
     c = 12288 \<or> c = 65279"

definition is_sep :: "nat \<Rightarrow> bool" where
  \<comment> \<open>\<open>[_\-\s]\<close>\<close>
  "is_sep c \<longleftrightarrow> c = 95 \<or> c = 45 \<or> is_space c"

text \<open>
  \<open>String.prototype.toUpperCase\<close> and \<open>toLowerCase\<close> belong to the runtime: they apply
  the case mappings of the Unicode character database, which is not part of the
  repository. The generator is therefore modelled over a runtime that supplies them.
\<close>

record runtime =
  toUpperCase :: "jsstring \<Rightarrow> jsstring"
  toLowerCase :: "jsstring \<Rightarrow> jsstring"

definition ascii_upper :: "nat \<Rightarrow> nat" where
  "ascii_upper c = (if is_az c then c - 32 else c)"

definition ascii_lower :: "nat \<Rightarrow> nat" where
  "ascii_lower c = (if is_AZ c then c + 32 else c)"

definition is_ascii :: "jsstring \<Rightarrow> bool" where
  "is_ascii s \<longleftrightarrow> (\<forall>c \<in> set s. c < 128)"

definition ascii_cased :: "runtime \<Rightarrow> bool" where
  \<comment> \<open>what every conforming runtime does on strings of ASCII characters\<close>
  "ascii_cased rt \<longleftrightarrow>
     (\<forall>s. is_ascii s \<longrightarrow>
        toUpperCase rt s = map ascii_upper s \<and> toLowerCase rt s = map ascii_lower s)"

definition ascii_runtime :: runtime where
  \<comment> \<open>a runtime that knows the ASCII letters only\<close>
  "ascii_runtime = \<lparr> toUpperCase = map ascii_upper, toLowerCase = map ascii_lower \<rparr>"

section \<open>The case converters of the generator\<close>

text \<open>
  \<open>str.split(/[_\-\s]+|(?=[A-Z])/)\<close>. \<open>matcher\<close> is the match of the expression at the
  scan position \<open>q\<close>, against the rest of the string from there: the length of the
  match, or \<open>None\<close>. The first alternative takes a whole run of separators, the second
  one is the empty match in front of a capital.
\<close>

definition matcher :: "jsstring \<Rightarrow> nat option" where
  "matcher rest =
     (case takeWhile is_sep rest of
        [] \<Rightarrow> (case rest of [] \<Rightarrow> None | c # _ \<Rightarrow> if is_AZ c then Some 0 else None)
      | run \<Rightarrow> Some (length run))"

text \<open>
  The loop of \<open>String.prototype.split\<close> keeps two positions, the start \<open>p\<close> of the
  current piece and the scan position \<open>q\<close>. Here \<open>piece\<close> is the string from \<open>p\<close> up to
  \<open>q\<close> and the second argument the string from \<open>q\<close> on. A match that ends at \<open>p\<close> (an
  empty match with an empty piece) is skipped and \<open>q\<close> moves on by one; any other match
  closes the piece and both positions move to the end of the match. At the end of the
  string the last piece is added.
\<close>

function split_loop :: "jsstring \<Rightarrow> jsstring \<Rightarrow> jsstring list" where
  "split_loop piece [] = [piece]"
| "split_loop piece (c # cs) =
     (case matcher (c # cs) of
        None \<Rightarrow> split_loop (piece @ [c]) cs
      | Some n \<Rightarrow>
          if n = 0 \<and> piece = [] then split_loop (piece @ [c]) cs
          else piece # split_loop [] (drop n (c # cs)))"
  by pat_completeness auto
termination
  by (relation "measure (\<lambda>(piece, rest). 2 * length rest + (if piece = [] then 0 else 1))")
     auto

definition split :: "jsstring \<Rightarrow> jsstring list" where
  "split str = split_loop [] str"

definition capitalize :: "runtime \<Rightarrow> jsstring \<Rightarrow> jsstring" where
  \<comment> \<open>\<open>word.charAt(0).toUpperCase() + word.slice(1).toLowerCase()\<close>\<close>
  "capitalize rt word = toUpperCase rt (take 1 word) @ toLowerCase rt (drop 1 word)"

definition toPascalCase :: "runtime \<Rightarrow> jsstring \<Rightarrow> jsstring" where
  "toPascalCase rt str = concat (map (capitalize rt) (split str))"

text \<open>
  \<open>str.replace(/([a-z])([A-Z])/g, '$1-$2')\<close>: the string is scanned from the left; a
  match takes two code units and the scan goes on behind it.
\<close>

fun replace_pairs :: "jsstring \<Rightarrow> jsstring" where
  "replace_pairs (a # b # cs) =
     (if is_az a \<and> is_AZ b then a # 45 # b # replace_pairs cs
      else a # replace_pairs (b # cs))"
| "replace_pairs cs = cs"

definition toKebabCase :: "runtime \<Rightarrow> jsstring \<Rightarrow> jsstring" where
  "toKebabCase rt str = toLowerCase rt (replace_pairs str)"

text \<open>
  An excerpt of the Unicode case mappings, for a runtime that also knows the Armenian
  ligature U+0587 (ech yiwn): its uppercase form is the two capitals U+0535 U+0552
  (SpecialCasing.txt), whose lowercase forms are U+0565 and U+0582 (UnicodeData.txt).
  On the code units listed here and on ASCII it is what \<open>toUpperCase\<close> and
  \<open>toLowerCase\<close> of a JavaScript engine return.
\<close>

definition excerpt_upper :: "nat \<Rightarrow> jsstring" where
  "excerpt_upper c =
     (if c = 0x587 then [0x535, 0x552]
      else if c = 0x565 then [0x535]
      else if c = 0x582 then [0x552]
      else [ascii_upper c])"

definition excerpt_lower :: "nat \<Rightarrow> nat" where
  "excerpt_lower c =
     (if c = 0x535 then 0x565
      else if c = 0x552 then 0x582
      else ascii_lower c)"

definition excerpt_runtime :: runtime where
  "excerpt_runtime =
     \<lparr> toUpperCase = (\<lambda>s. concat (map excerpt_upper s)), toLowerCase = map excerpt_lower \<rparr>"

subsection \<open>The converters as they are described\<close>

text \<open>
  The description of the converters speaks of uppercase and lowercase letters. Which
  code units are letters, and of which case, is a matter of the runtime's case
  mappings: a code unit is an uppercase letter when lowercasing changes it, and a
  lowercase letter when uppercasing changes it.
\<close>

definition uppercase_letter :: "runtime \<Rightarrow> nat \<Rightarrow> bool" where
  "uppercase_letter rt c \<longleftrightarrow> toLowerCase rt [c] \<noteq> [c]"

definition lowercase_letter :: "runtime \<Rightarrow> nat \<Rightarrow> bool" where
  "lowercase_letter rt c \<longleftrightarrow> toUpperCase rt [c] \<noteq> [c]"

text \<open>
  \<open>toPascalCase\<close> as described: the input is cut at runs of underscores, hyphens and
  white space and in front of every uppercase letter; empty words are dropped. A word
  thus starts at a code unit that is no separator and runs on over the code units that
  are neither separators nor uppercase letters. Of each word the first character is
  uppercased and the remainder lowercased, and the words are joined. The class \<open>up\<close> of
  the uppercase letters is an argument.
\<close>

definition inside :: "(nat \<Rightarrow> bool) \<Rightarrow> nat \<Rightarrow> bool" where
  "inside up c \<longleftrightarrow> \<not> is_sep c \<and> \<not> up c"

function words_before :: "(nat \<Rightarrow> bool) \<Rightarrow> jsstring \<Rightarrow> jsstring list" where
  "words_before up [] = []"
| "words_before up (c # cs) =
     (if is_sep c then words_before up cs
      else (c # takeWhile (inside up) cs) # words_before up (dropWhile (inside up) cs))"
  by pat_completeness auto
termination
  by (relation "measure (\<lambda>(up, s). length s)") (auto simp: less_Suc_eq_le length_dropWhile_le)

fun capitalized :: "runtime \<Rightarrow> jsstring \<Rightarrow> jsstring" where
  "capitalized rt [] = []"
| "capitalized rt (c # cs) = toUpperCase rt [c] @ toLowerCase rt cs"

definition pascal_described :: "(nat \<Rightarrow> bool) \<Rightarrow> runtime \<Rightarrow> jsstring \<Rightarrow> jsstring" where
  "pascal_described up rt str = concat (map (capitalized rt) (words_before up str))"


definition pascal_amended :: "runtime \<Rightarrow> jsstring \<Rightarrow> jsstring" where
  "pascal_amended rt str = pascal_described is_AZ rt str"

text \<open>
  Short names for the words of the amended description and for the code units inside
  them (\<open>inner\<close> is \<open>inside is_AZ\<close>).
\<close>

definition inner :: "nat \<Rightarrow> bool" where
  "inner c \<longleftrightarrow> \<not> is_sep c \<and> \<not> is_AZ c"

definition pascal_words :: "jsstring \<Rightarrow> jsstring list" where
  "pascal_words str = words_before is_AZ str"

text \<open>
  \<open>toKebabCase\<close> as described: a hyphen goes between every adjacent pair of a lowercase
  letter and an uppercase letter, then the whole string is lowercased. The classes
  \<open>lo\<close> and \<open>up\<close> of the letters are arguments. As it is worded the description speaks
  of the letters of the runtime, as amended of \<open>a\<close> to \<open>z\<close> and \<open>A\<close> to \<open>Z\<close> only.
\<close>

fun hyphenate_between :: "(nat \<Rightarrow> bool) \<Rightarrow> (nat \<Rightarrow> bool) \<Rightarrow> jsstring \<Rightarrow> jsstring" where
  "hyphenate_between lo up (a # b # cs) =
     (if lo a \<and> up b then a # 45 # hyphenate_between lo up (b # cs)
      else a # hyphenate_between lo up (b # cs))"
| "hyphenate_between lo up cs = cs"

definition kebab_described ::
  "(nat \<Rightarrow> bool) \<Rightarrow> (nat \<Rightarrow> bool) \<Rightarrow> runtime \<Rightarrow> jsstring \<Rightarrow> jsstring" where
  "kebab_described lo up rt str = toLowerCase rt (hyphenate_between lo up str)"

definition kebab_worded :: "runtime \<Rightarrow> jsstring \<Rightarrow> jsstring" where
  "kebab_worded rt str = kebab_described (lowercase_letter rt) (uppercase_letter rt) rt str"

definition kebab_amended :: "runtime \<Rightarrow> jsstring \<Rightarrow> jsstring" where
  "kebab_amended rt str = kebab_described is_az is_AZ rt str"

definition lower_stable :: "runtime \<Rightarrow> bool" where
  \<comment> \<open>two facts of the Unicode lowercase mapping: a lowercased string has no capital
      \<open>A\<close> to \<open>Z\<close> left, and lowercasing it again changes nothing\<close>
  "lower_stable rt \<longleftrightarrow>
     (\<forall>s. list_all (\<lambda>c. \<not> is_AZ c) (toLowerCase rt s) \<and>
          toLowerCase rt (toLowerCase rt s) = toLowerCase rt s)"

section \<open>The generator\<close>

datatype Pattern = LOWER_CASE | KEBAB_CASE | PASCAL_CASE | CAMEL_CASE

text \<open>
  \<open>expressoConfig\<close> is a copy of the \<open>config\<close> object of \<open>expressots.config.ts\<close>; the
  field is \<open>None\<close> when that object has no \<open>scaffoldPattern\<close>.
\<close>

record config =
  scaffoldPattern :: "Pattern option"

record props =
  schematic :: jsstring
  name :: jsstring

text \<open>
  The arguments and the option of the command line. An argument that was not given is
  \<open>None\<close>. \<open>spec\<close> is declared with \<open>default: true\<close>; \<open>--no-spec\<close> sets it to false.
\<close>

record options =
  schematic_arg :: "jsstring option"
  name_arg :: "jsstring option"
  spec :: bool

definition constructor :: "jsstring option \<Rightarrow> jsstring option \<Rightarrow> bool option \<Rightarrow> options" where
  "constructor s n flag =
     \<lparr> schematic_arg = s, name_arg = n,
       spec = (case flag of None \<Rightarrow> True | Some b \<Rightarrow> b) \<rparr>"

text \<open>
  What surrounds one run: whether \<open>expressots.config.ts\<close> exists in the project and
  what it holds, what the user answers to the two questions (the first one offers
  \<open>usecase\<close>, \<open>controller\<close>, \<open>dto\<close> and \<open>service\<close>), and the error of \<open>mkdir\<close>, if any
  (with \<open>recursive: true\<close> an existing folder is no error).
\<close>

record environment =
  config_file :: "config option"
  list_answer :: jsstring
  input_answer :: jsstring
  mkdir_error :: "jsstring option"

text \<open>\<open>this.env.error(new Error(message))\<close> throws; the error is its message.\<close>

datatype error = Error jsstring

text \<open>
  What a run does to the outside, in the order in which it does it: a question with
  its type and message, \<open>mkdir\<close> with its path, and \<open>copyTpl\<close> with the template, the
  destination and the value it hands to the template as \<open>className\<close>. Template and
  destination are written relative to the roots that \<open>templatePath\<close> and
  \<open>destinationPath\<close> put in front.
\<close>

datatype event =
    Prompt jsstring jsstring
  | Mkdir jsstring
  | CopyTpl jsstring jsstring jsstring

definition ConfigMissing :: error where
  "ConfigMissing =
     Error (js ''The expressots.config.ts file is missing. Please create it in the root of your project.'')"

definition initializing :: "environment \<Rightarrow> error + config" where
  "initializing env =
     (case config_file env of
        None \<Rightarrow> Inl ConfigMissing
      | Some c \<Rightarrow> Inr c)"

text \<open>
  One question of \<open>prompting\<close>: it is asked \<open>when\<close> the argument is missing or empty
  (\<open>!this.options.x\<close>), and the answer wins over the argument (\<open>answer ?? this.options.x\<close>).
\<close>

definition ask :: "jsstring option \<Rightarrow> event \<Rightarrow> jsstring \<Rightarrow> jsstring \<times> event list" where
  "ask arg question answer =
     (case arg of
        None \<Rightarrow> (answer, [question])
      | Some v \<Rightarrow> if v = [] then (answer, [question]) else (v, []))"

definition prompting :: "environment \<Rightarrow> options \<Rightarrow> props \<times> event list" where
  "prompting env opts =
     (let (s, asked1) = ask (schematic_arg opts)
            (Prompt (js ''list'') (js ''What do you want to generate?'')) (list_answer env);
          (n, asked2) = ask (name_arg opts)
            (Prompt (js ''input'') (js ''What is the name of the '' @ s @ js ''?'')) (input_answer env)
      in (\<lparr> schematic = s, name = n \<rparr>, asked1 @ asked2))"

definition schematicValidation :: "props \<Rightarrow> bool" where
  "schematicValidation answers \<longleftrightarrow>
     schematic answers \<notin> set [js ''usecase'', js ''controller'', js ''dto'', js ''service'']"

definition UnsupportedSchematic :: "jsstring \<Rightarrow> error" where
  "UnsupportedSchematic kind =
     Error (js ''The schematic '' @ kind @
            js '' is not supported. Please use one of the following: usecase, controller, service'')"

definition validate :: "props \<Rightarrow> error + unit" where
  "validate answers =
     (if schematicValidation answers then Inl (UnsupportedSchematic (schematic answers))
      else Inr ())"

text \<open>The \<open>switch\<close> of \<open>writing\<close>: the name according to the configuration.\<close>

definition scaffold_name :: "runtime \<Rightarrow> config \<Rightarrow> jsstring \<Rightarrow> jsstring" where
  "scaffold_name rt cfg n =
     (case scaffoldPattern cfg of
        Some LOWER_CASE \<Rightarrow> toLowerCase rt n
      | Some KEBAB_CASE \<Rightarrow> toKebabCase rt n
      | Some PASCAL_CASE \<Rightarrow> toPascalCase rt n
      | Some CAMEL_CASE \<Rightarrow> toLowerCase rt (take 1 n) @ drop 1 n
      | None \<Rightarrow> n)"

text \<open>
  \<open>writing\<close> overwrites its variable \<open>name\<close> with the name according to the
  configuration; the folder, the file and \<open>className\<close> are all computed from that.
\<close>

definition writing :: "runtime \<Rightarrow> environment \<Rightarrow> config \<Rightarrow> props \<Rightarrow> (error + unit) \<times> event list" where
  "writing rt env cfg answers =
     (let s = schematic answers;
          n = scaffold_name rt cfg (name answers);
          folder = Mkdir (js ''src/'' @ n)
      in case mkdir_error env of
           Some err \<Rightarrow> (Inl (Error err), [folder])
         | None \<Rightarrow>
             (Inr (),
              [folder,
               CopyTpl (s @ js ''.tpl'')
                       (js ''src/'' @ n @ js ''/'' @ n @ js ''.'' @ s @ js ''.ts'')
                       (toPascalCase rt n)]))"

text \<open>
  Yeoman runs the methods of a generator in the order of its run loop: \<open>initializing\<close>,
  \<open>prompting\<close>, the method \<open>validate\<close> (which has no name of the run loop and so runs
  after the first two), \<open>writing\<close>, \<open>end\<close>. An error thrown by one method ends the run.
  The result is the error, if any, and what was done up to there.
\<close>

definition run :: "runtime \<Rightarrow> environment \<Rightarrow> options \<Rightarrow> error option \<times> event list" where
  "run rt env opts =
     (case initializing env of
        Inl e \<Rightarrow> (Some e, [])
      | Inr cfg \<Rightarrow>
          (let (answers, asked) = prompting env opts
           in case validate answers of
                Inl e \<Rightarrow> (Some e, asked)
              | Inr _ \<Rightarrow>
                  (case writing rt env cfg answers of
                     (Inl e, effects) \<Rightarrow> (Some e, asked @ effects)
                   | (Inr _, effects) \<Rightarrow> (None, asked @ effects))))"

text \<open>Whether a text contains a given piece.\<close>

fun mentions :: "jsstring \<Rightarrow> jsstring \<Rightarrow> bool" where
  "mentions [] piece = (piece = [])"
| "mentions (c # cs) piece = (take (length piece) (c # cs) = piece \<or> mentions cs piece)"

definition is_prompt :: "event \<Rightarrow> bool" where
  "is_prompt ev = (case ev of Prompt _ _ \<Rightarrow> True | _ \<Rightarrow> False)"

definition is_copy :: "event \<Rightarrow> bool" where
  "is_copy ev = (case ev of CopyTpl _ _ _ \<Rightarrow> True | _ \<Rightarrow> False)"

fun message :: "error \<Rightarrow> jsstring" where
  "message (Error m) = m"

text \<open>
  The repository holds a second generator, without configuration: its \<open>writing\<close> has
  no \<open>switch\<close>, and folder, file and \<open>className\<close> come from the name as it was given.
\<close>

definition writing_unconfigured :: "runtime \<Rightarrow> environment \<Rightarrow> props \<Rightarrow> (error + unit) \<times> event list" where
  "writing_unconfigured rt env answers =
     (let s = schematic answers;
          n = name answers;
          folder = Mkdir (js ''src/'' @ n)
      in case mkdir_error env of
           Some err \<Rightarrow> (Inl (Error err), [folder])
         | None \<Rightarrow>
             (Inr (),
              [folder,
               CopyTpl (s @ js ''.tpl'')
                       (js ''src/'' @ n @ js ''/'' @ n @ js ''.'' @ s @ js ''.ts'')
                       (toPascalCase rt n)]))"

text \<open>
  A string is settled when it has no separator and does not start with a small ASCII
  letter: the results of \<open>toPascalCase\<close> on ASCII input are of this kind.
\<close>

definition settled :: "jsstring \<Rightarrow> bool" where
  "settled t \<longleftrightarrow>
     list_all (\<lambda>c. \<not> is_sep c) t \<and> (case t of [] \<Rightarrow> True | c # _ \<Rightarrow> ascii_upper c = c)"

section \<open>Facts about the runtimes and the converters\<close>

lemmas char_classes = is_AZ_def is_az_def is_space_def is_sep_def inner_def inside_def

lemma ascii_cased_ascii_runtime: "ascii_cased ascii_runtime"
  by (simp add: ascii_cased_def ascii_runtime_def)

lemma excerpt_upper_ascii: "c < 128 \<Longrightarrow> excerpt_upper c = [ascii_upper c]"
  by (simp add: excerpt_upper_def)

lemma excerpt_lower_ascii: "c < 128 \<Longrightarrow> excerpt_lower c = ascii_lower c"
  by (simp add: excerpt_lower_def)

lemma ascii_cased_excerpt_runtime: "ascii_cased excerpt_runtime"
proof -
  have "concat (map excerpt_upper s) = map ascii_upper s" if "is_ascii s" for s
    using that by (induction s) (auto simp: is_ascii_def excerpt_upper_ascii)
  moreover have "map excerpt_lower s = map ascii_lower s" if "is_ascii s" for s
    using that by (auto simp: is_ascii_def excerpt_lower_ascii)
  ultimately show ?thesis
    by (simp add: ascii_cased_def excerpt_runtime_def)
qed

lemma ascii_lower_not_AZ: "\<not> is_AZ (ascii_lower c)"
  by (simp add: ascii_lower_def is_AZ_def)

lemma ascii_lower_idem: "ascii_lower (ascii_lower c) = ascii_lower c"
  by (simp add: ascii_lower_def is_AZ_def)

lemma lower_stable_ascii_runtime: "lower_stable ascii_runtime"
  by (simp add: lower_stable_def ascii_runtime_def list_all_iff ascii_lower_not_AZ ascii_lower_idem)

lemma replace_pairs_hyphenate: "replace_pairs s = hyphenate_between is_az is_AZ s"
proof (induction s rule: replace_pairs.induct)
  case (1 a b cs)
  then show ?case by (cases cs) (auto simp: is_az_def is_AZ_def)
qed simp_all

lemma hyphenate_between_cong:
  "\<forall>c \<in> set s. lo c = lo' c \<and> up c = up' c \<Longrightarrow>
   hyphenate_between lo up s = hyphenate_between lo' up' s"
  by (induction lo up s rule: hyphenate_between.induct) auto

lemma letters_ascii:
  assumes "ascii_cased rt" and "c < 128"
  shows "uppercase_letter rt c = is_AZ c" and "lowercase_letter rt c = is_az c"
proof -
  from assms have "toLowerCase rt [c] = [ascii_lower c]" and "toUpperCase rt [c] = [ascii_upper c]"
    by (simp_all add: ascii_cased_def is_ascii_def)
  then show "uppercase_letter rt c = is_AZ c" and "lowercase_letter rt c = is_az c"
    by (auto simp: uppercase_letter_def lowercase_letter_def ascii_lower_def ascii_upper_def
        is_az_def)
qed

lemma inside_AZ: "inside is_AZ = inner"
  by (simp add: fun_eq_iff inner_def inside_def)

lemma pascal_words_Nil: "pascal_words [] = []"
  by (simp add: pascal_words_def)

lemma pascal_words_Cons:
  "pascal_words (c # cs) =
     (if is_sep c then pascal_words cs
      else (c # takeWhile inner cs) # pascal_words (dropWhile inner cs))"
  by (simp add: pascal_words_def inside_AZ)

lemma pascal_words_induct:
  assumes "P []"
    and "\<And>c cs. (is_sep c \<Longrightarrow> P cs) \<Longrightarrow> (\<not> is_sep c \<Longrightarrow> P (dropWhile inner cs)) \<Longrightarrow> P (c # cs)"
  shows "P s"
proof (induction s rule: length_induct)
  case (1 xs)
  show ?case
  proof (cases xs)
    case Nil
    with assms(1) show ?thesis by simp
  next
    case (Cons c cs)
    have "length (dropWhile inner cs) < length xs"
      using Cons length_dropWhile_le [of inner cs] by simp
    with 1 have "P (dropWhile inner cs)" by blast
    moreover from 1 Cons have "P cs" by simp
    ultimately show ?thesis
      using assms(2) Cons by blast
  qed
qed


lemma replace_pairs_no_capital: "list_all (\<lambda>c. \<not> is_AZ c) s \<Longrightarrow> replace_pairs s = s"
  by (induction s rule: replace_pairs.induct) auto

lemma pascal_words_dropWhile_sep: "pascal_words (dropWhile is_sep s) = pascal_words s"
  by (induction s) (auto simp: pascal_words_Cons)

lemma drop_takeWhile: "drop (length (takeWhile P s)) s = dropWhile P s"
  by (induction s) auto

lemma split_loop_words:
  "filter (\<lambda>w. w \<noteq> []) (split_loop piece rest) =
     (if piece = [] then pascal_words rest
      else (piece @ takeWhile inner rest) # pascal_words (dropWhile inner rest))"
proof (induction piece rest rule: split_loop.induct)
  case (1 piece)
  then show ?case by (simp add: pascal_words_Nil)
next
  case (2 piece c cs)
  consider (sep) "is_sep c" | (cap) "\<not> is_sep c" "is_AZ c" | (inn) "inner c"
    by (auto simp: inner_def)
  then show ?case
  proof cases
    case sep
    then obtain n where m: "matcher (c # cs) = Some n" and n: "n = length (takeWhile is_sep (c # cs))" "n \<noteq> 0"
      by (simp add: matcher_def)
    have d: "drop n (c # cs) = dropWhile is_sep (c # cs)"
      unfolding n by (rule drop_takeWhile)
    have ih: "filter (\<lambda>w. w \<noteq> []) (split_loop [] (drop n (c # cs))) = pascal_words (drop n (c # cs))"
      using "2.IH"(3)[OF m] n by simp
    have "pascal_words (drop n (c # cs)) = pascal_words (c # cs)"
      unfolding d by (rule pascal_words_dropWhile_sep)
    with ih m n sep show ?thesis
      by (simp add: inner_def pascal_words_Cons)
  next
    case cap
    then have m: "matcher (c # cs) = Some 0"
      by (simp add: matcher_def)
    show ?thesis
    proof (cases "piece = []")
      case True
      with "2.IH"(2)[OF m] m cap show ?thesis by (simp add: pascal_words_Cons)
    next
      case False
      with "2.IH"(3)[OF m] m cap show ?thesis by (simp add: inner_def pascal_words_Cons)
    qed
  next
    case inn
    then have m: "matcher (c # cs) = None" and ns: "\<not> is_sep c"
      by (simp_all add: matcher_def inner_def)
    with "2.IH"(1)[OF m] inn show ?thesis by (simp add: pascal_words_Cons)
  qed
qed

lemma concat_map_filter_nonempty:
  "f [] = [] \<Longrightarrow> concat (map f (filter (\<lambda>w. w \<noteq> []) ws)) = concat (map f ws)"
  by (induction ws) auto

lemma toPascalCase_amended:
  assumes "toUpperCase rt [] = []" and "toLowerCase rt [] = []"
  shows "toPascalCase rt s = pascal_amended rt s"
proof -
  have "capitalize rt w = capitalized rt w" for w
    using assms by (cases w) (simp_all add: capitalize_def)
  then have c: "capitalize rt = capitalized rt"
    by (simp add: fun_eq_iff)
  have "pascal_words s = filter (\<lambda>w. w \<noteq> []) (split s)"
    by (simp add: split_def split_loop_words)
  then show ?thesis
    using concat_map_filter_nonempty [of "capitalized rt" "split s"]
    by (simp add: toPascalCase_def pascal_amended_def pascal_described_def pascal_words_def c)
qed

lemma split_loop_subset:
  "w \<in> set (split_loop piece rest) \<Longrightarrow> set w \<subseteq> set piece \<union> set rest"
proof (induction piece rest arbitrary: w rule: split_loop.induct)
  case (1 piece)
  then show ?case by simp
next
  case (2 piece c cs)
  show ?case
  proof (cases "matcher (c # cs)")
    case None
    with "2.prems" have "w \<in> set (split_loop (piece @ [c]) cs)" by simp
    from "2.IH"(1)[OF None this] show ?thesis by auto
  next
    case (Some n)
    show ?thesis
    proof (cases "n = 0 \<and> piece = []")
      case True
      with "2.prems" Some have "w \<in> set (split_loop (piece @ [c]) cs)" by simp
      from "2.IH"(2)[OF Some True this] show ?thesis by auto
    next
      case False
      with "2.prems" Some have "w = piece \<or> w \<in> set (split_loop [] (drop n (c # cs)))"
        by auto
      then show ?thesis
      proof
        assume "w = piece" then show ?thesis by auto
      next
        assume "w \<in> set (split_loop [] (drop n (c # cs)))"
        from "2.IH"(3)[OF Some False this] have "set w \<subseteq> set (drop n (c # cs))" by simp
        also have "\<dots> \<subseteq> set (c # cs)" by (rule set_drop_subset)
        finally show ?thesis by auto
      qed
    qed
  qed
qed

lemma is_ascii_take_drop: "is_ascii w \<Longrightarrow> is_ascii (take n w) \<and> is_ascii (drop n w)"
  by (auto simp: is_ascii_def dest: in_set_takeD in_set_dropD)

lemma capitalize_ascii:
  assumes "ascii_cased rt" and "is_ascii w"
  shows "capitalize rt w = capitalize ascii_runtime w"
  using assms is_ascii_take_drop [OF assms(2), of 1]
  by (simp add: capitalize_def ascii_cased_def ascii_runtime_def)

lemma toPascalCase_ascii:
  assumes "ascii_cased rt" and "is_ascii s"
  shows "toPascalCase rt s = toPascalCase ascii_runtime s"
proof -
  have "capitalize rt w = capitalize ascii_runtime w" if "w \<in> set (split s)" for w
  proof -
    from that have "set w \<subseteq> set s"
      using split_loop_subset [of w "[]" s] by (simp add: split_def)
    with assms(2) have "is_ascii w" by (auto simp: is_ascii_def)
    with assms(1) show ?thesis by (rule capitalize_ascii)
  qed
  then have "map (capitalize rt) (split s) = map (capitalize ascii_runtime) (split s)"
    by (intro map_cong) simp_all
  then show ?thesis by (simp only: toPascalCase_def)
qed

lemma is_ascii_replace_pairs: "is_ascii s \<Longrightarrow> is_ascii (replace_pairs s)"
  by (induction s rule: replace_pairs.induct) (auto simp: is_ascii_def)

lemma toKebabCase_ascii:
  assumes "ascii_cased rt" and "is_ascii s"
  shows "toKebabCase rt s = toKebabCase ascii_runtime s"
  using assms is_ascii_replace_pairs [OF assms(2)]
  by (simp add: toKebabCase_def ascii_cased_def ascii_runtime_def)

lemma ascii_upper_bound: "c < 128 \<Longrightarrow> ascii_upper c < 128"
  by (simp add: ascii_upper_def less_imp_diff_less)

lemma ascii_lower_bound: "c < 128 \<Longrightarrow> ascii_lower c < 128"
  by (simp add: ascii_lower_def is_AZ_def)

lemma is_ascii_toPascalCase:
  assumes "is_ascii s"
  shows "is_ascii (toPascalCase ascii_runtime s)"
proof -
  have "is_ascii (capitalize ascii_runtime w)" if "w \<in> set (split s)" for w
  proof -
    from that have "set w \<subseteq> set s"
      using split_loop_subset [of w "[]" s] by (simp add: split_def)
    with assms have "\<forall>c \<in> set w. c < 128" by (auto simp: is_ascii_def)
    then show ?thesis
      by (auto simp: capitalize_def ascii_runtime_def is_ascii_def ascii_upper_bound ascii_lower_bound
            dest: in_set_takeD in_set_dropD)
  qed
  then show ?thesis
    by (auto simp: toPascalCase_def is_ascii_def)
qed

lemma ascii_lower_inner: "inner c \<Longrightarrow> ascii_lower c = c"
  by (simp add: inner_def ascii_lower_def)

lemma map_ascii_lower_inner: "list_all inner w \<Longrightarrow> map ascii_lower w = w"
  by (induction w) (auto simp: ascii_lower_inner)

lemma list_all_takeWhile: "list_all P (takeWhile P xs)"
  by (induction xs) auto

lemma capitalized_word:
  "capitalized ascii_runtime (c # takeWhile inner cs) = ascii_upper c # takeWhile inner cs"
  by (simp add: ascii_runtime_def map_ascii_lower_inner list_all_takeWhile)

lemma pascal_amended_words:
  "pascal_amended rt s = concat (map (capitalized rt) (pascal_words s))"
  by (simp add: pascal_amended_def pascal_described_def pascal_words_def)

lemma pascal_amended_Cons:
  "pascal_amended ascii_runtime (c # cs) =
     (if is_sep c then pascal_amended ascii_runtime cs
      else ascii_upper c # takeWhile inner cs @ pascal_amended ascii_runtime (dropWhile inner cs))"
  by (simp add: pascal_amended_words pascal_words_Cons capitalized_word del: capitalized.simps)

lemma pascal_amended_Nil: "pascal_amended ascii_runtime [] = []"
  by (simp add: pascal_amended_words pascal_words_Nil)

lemma ascii_upper_idem: "ascii_upper (ascii_upper c) = ascii_upper c"
  by (auto simp: ascii_upper_def is_az_def)

lemma is_sep_bounds: "is_sep c \<Longrightarrow> c < 65 \<or> 90 < c"
  by (auto simp: is_sep_def is_space_def)

lemma ascii_upper_not_sep: "\<not> is_sep c \<Longrightarrow> \<not> is_sep (ascii_upper c)"
proof (cases "is_az c")
  case True
  then have "\<not> (ascii_upper c < 65 \<or> 90 < ascii_upper c)"
    by (simp add: ascii_upper_def is_az_def) arith
  then show ?thesis using is_sep_bounds by blast
next
  case False
  assume "\<not> is_sep c"
  with False show ?thesis by (simp add: ascii_upper_def)
qed

lemma ascii_upper_AZ: "is_AZ c \<Longrightarrow> ascii_upper c = c"
  by (simp add: ascii_upper_def is_az_def is_AZ_def)

lemma settled_dropWhile:
  "list_all (\<lambda>c. \<not> is_sep c) cs \<Longrightarrow> settled (dropWhile inner cs)"
  by (induction cs) (auto simp: settled_def inner_def ascii_upper_AZ)

lemma pascal_amended_settled: "settled t \<Longrightarrow> pascal_amended ascii_runtime t = t"
proof (induction t rule: pascal_words_induct)
  case 1
  then show ?case by (simp add: pascal_amended_Nil)
next
  case (2 c cs)
  then have ns: "\<not> is_sep c" and up: "ascii_upper c = c" and rest: "list_all (\<lambda>c. \<not> is_sep c) cs"
    by (simp_all add: settled_def)
  from rest have "settled (dropWhile inner cs)" by (rule settled_dropWhile)
  with "2.IH"(2)[OF ns] have "pascal_amended ascii_runtime (dropWhile inner cs) = dropWhile inner cs"
    by simp
  with ns up show ?case by (simp add: pascal_amended_Cons)
qed

lemma settled_pascal_amended: "settled (pascal_amended ascii_runtime s)"
proof (induction s rule: pascal_words_induct)
  case 1
  then show ?case by (simp add: pascal_amended_Nil settled_def)
next
  case (2 c cs)
  show ?case
  proof (cases "is_sep c")
    case True
    with "2.IH"(1) show ?thesis by (simp add: pascal_amended_Cons)
  next
    case False
    have "list_all (\<lambda>c. \<not> is_sep c) (takeWhile inner cs)"
      using list_all_takeWhile [of inner cs] by (auto simp: list_all_iff inner_def)
    moreover from "2.IH"(2)[OF False] have "list_all (\<lambda>c. \<not> is_sep c) (pascal_amended ascii_runtime (dropWhile inner cs))"
      by (simp add: settled_def)
    ultimately show ?thesis
      using False by (simp add: pascal_amended_Cons settled_def ascii_upper_idem ascii_upper_not_sep)
  qed
qed

lemma toPascalCase_ascii_runtime_amended: "toPascalCase ascii_runtime s = pascal_amended ascii_runtime s"
  by (rule toPascalCase_amended) (simp_all add: ascii_runtime_def)

lemma toPascalCase_ascii_runtime_idem:
  "toPascalCase ascii_runtime (toPascalCase ascii_runtime s) = toPascalCase ascii_runtime s"
  by (simp add: toPascalCase_ascii_runtime_amended pascal_amended_settled settled_pascal_amended)

lemma excerpt_lower_not_AZ: "\<not> is_AZ (excerpt_lower c)"
  by (simp add: excerpt_lower_def ascii_lower_def is_AZ_def)

lemma excerpt_lower_idem: "excerpt_lower (excerpt_lower c) = excerpt_lower c"
  by (simp add: excerpt_lower_def ascii_lower_def is_AZ_def)

lemma lower_stable_excerpt_runtime: "lower_stable excerpt_runtime"
  by (simp add: lower_stable_def excerpt_runtime_def list_all_iff excerpt_lower_not_AZ
      excerpt_lower_idem)


subsection \<open>The converters on the names of the specification\<close>

lemmas ascii_eval = toPascalCase_def split_def matcher_def char_classes capitalize_def
  toKebabCase_def ascii_runtime_def ascii_upper_def ascii_lower_def js_def

lemma pascal_examples:
  "toPascalCase ascii_runtime (js ''user_profile'') = js ''UserProfile''"
  "toPascalCase ascii_runtime (js ''user-profile'') = js ''UserProfile''"
  "toPascalCase ascii_runtime (js ''userProfile'') = js ''UserProfile''"
  "toPascalCase ascii_runtime (js ''order-total'') = js ''OrderTotal''"
  "toPascalCase ascii_runtime (js ''OrderTotal'') = js ''OrderTotal''"
  "toPascalCase ascii_runtime (js ''ordertotal'') = js ''Ordertotal''"
  by (simp_all add: ascii_eval)

lemma kebab_examples:
  "toKebabCase ascii_runtime (js ''UserProfile'') = js ''user-profile''"
  "toKebabCase ascii_runtime (js ''already-kebab'') = js ''already-kebab''"
  "toKebabCase ascii_runtime (js ''user_profile'') = js ''user_profile''"
  "toKebabCase ascii_runtime (js ''user profile'') = js ''user profile''"
  "toKebabCase ascii_runtime (js ''OrderTotal'') = js ''order-total''"
  by (simp_all add: ascii_eval)

lemma is_ascii_js_examples:
  "is_ascii (js ''user_profile'')" "is_ascii (js ''user-profile'')" "is_ascii (js ''userProfile'')"
  "is_ascii (js ''order-total'')" "is_ascii (js ''OrderTotal'')" "is_ascii (js ''ordertotal'')"
  "is_ascii (js ''UserProfile'')" "is_ascii (js ''already-kebab'')" "is_ascii (js ''user profile'')"
  by (simp_all add: is_ascii_def js_def)

subsection \<open>The steps of a run\<close>

lemma validate_result:
  "validate answers =
     (if schematic answers \<in> {js ''usecase'', js ''controller'', js ''dto'', js ''service''}
      then Inr () else Inl (UnsupportedSchematic (schematic answers)))"
  by (simp add: validate_def schematicValidation_def)

lemma mentions_empty: "mentions t []"
  by (cases t) simp_all

lemma mentions_start: "mentions (piece @ post) piece"
  by (cases piece) (simp_all add: mentions_empty)

lemma mentions_middle: "mentions (pre @ piece @ post) piece"
  by (induction pre) (simp_all add: mentions_start)

lemma validate_names_kind: "mentions (message (UnsupportedSchematic kind)) kind"
  by (simp add: UnsupportedSchematic_def mentions_middle)

lemma validate_usecase: "validate \<lparr>schematic = js ''usecase'', name = n\<rparr> = Inr ()"
  by (simp add: validate_def schematicValidation_def js_def)

lemma prompting_arguments:
  "prompting env (constructor (Some (js ''usecase'')) (Some (js ''OrderTotal'')) flag) =
     (\<lparr>schematic = js ''usecase'', name = js ''OrderTotal''\<rparr>, [])"
  by (simp add: prompting_def ask_def constructor_def js_def)

lemma writing_className:
  "mkdir_error env = None \<Longrightarrow>
   \<exists>template file.
     snd (writing rt env cfg answers) =
       [Mkdir (js ''src/'' @ scaffold_name rt cfg (name answers)),
        CopyTpl template file (toPascalCase rt (scaffold_name rt cfg (name answers)))]"
  by (simp add: writing_def Let_def)

lemma writing_unconfigured_className:
  "mkdir_error env = None \<Longrightarrow>
   \<exists>template file.
     snd (writing_unconfigured rt env answers) =
       [Mkdir (js ''src/'' @ name answers), CopyTpl template file (toPascalCase rt (name answers))]"
  by (simp add: writing_unconfigured_def Let_def)

lemma writing_copies: "length (filter is_copy (snd (writing rt env cfg answers))) \<le> 1"
  by (simp add: writing_def is_copy_def Let_def split: option.split)

lemma prompting_no_copy: "filter is_copy (snd (prompting env opts)) = []"
  by (simp add: prompting_def ask_def is_copy_def Let_def split: option.split prod.split)

subsection \<open>The descriptions on ASCII strings\<close>

lemmas described_eval = pascal_described_def kebab_described_def inside_def is_sep_def is_space_def
  is_AZ_def is_az_def uppercase_letter_def lowercase_letter_def excerpt_runtime_def
  excerpt_upper_def excerpt_lower_def ascii_upper_def ascii_lower_def js_def


lemma kebab_worded_ascii:
  assumes "ascii_cased rt" and "is_ascii s"
  shows "kebab_worded rt s = kebab_amended rt s"
proof -
  have "\<forall>c \<in> set s. lowercase_letter rt c = is_az c \<and> uppercase_letter rt c = is_AZ c"
    using assms by (simp add: is_ascii_def letters_ascii)
  then have "hyphenate_between (lowercase_letter rt) (uppercase_letter rt) s =
      hyphenate_between is_az is_AZ s"
    by (rule hyphenate_between_cong)
  then show ?thesis
    by (simp add: kebab_worded_def kebab_amended_def kebab_described_def)
qed

section \<open>The claims\<close>

text \<open>
  C1. The claim: for every raw name and every configured pattern, \<open>className\<close> is
  \<open>toPascalCase\<close> of the raw name, not of the folder name. \<open>writing\<close> computes it from
  the folder name (\<open>writing_className\<close>), and the two differ: with the pattern
  \<open>lowercase\<close> and the name \<open>OrderTotal\<close> the run writes the class \<open>Ordertotal\<close>, while
  \<open>toPascalCase\<close> of the raw name is \<open>OrderTotal\<close>.
\<close>

theorem className_from_folder_name:
  "run ascii_runtime
     \<lparr>config_file = Some \<lparr>scaffoldPattern = Some LOWER_CASE\<rparr>, list_answer = [],
      input_answer = [], mkdir_error = None\<rparr>
     (constructor (Some (js ''usecase'')) (Some (js ''OrderTotal'')) None) =
     (None,
      [Mkdir (js ''src/ordertotal''),
       CopyTpl (js ''usecase.tpl'') (js ''src/ordertotal/ordertotal.usecase.ts'')
         (js ''Ordertotal'')]) \<and>
   toPascalCase ascii_runtime (js ''OrderTotal'') = js ''OrderTotal''"
proof -
  have n: "scaffold_name ascii_runtime \<lparr>scaffoldPattern = Some LOWER_CASE\<rparr> (js ''OrderTotal'') =
      js ''ordertotal''"
    by (simp add: scaffold_name_def ascii_runtime_def ascii_lower_def is_AZ_def js_def)
  show ?thesis
    by (simp add: run_def initializing_def prompting_arguments validate_usecase writing_def n
        pascal_examples)
      (simp add: js_def)
qed

text \<open>
  C2. With the schematic \<open>usecase\<close>, the name \<open>OrderTotal\<close> and the pattern
  \<open>kebab-case\<close>, the folder name is \<open>order-total\<close>, and the run makes the folder
  \<open>src/order-total\<close> and renders the template of the schematic into
  \<open>src/order-total/order-total.usecase.ts\<close> with the class name \<open>OrderTotal\<close>.
\<close>

theorem usecase_OrderTotal_kebab:
  assumes "ascii_cased rt"
    and "config_file env = Some cfg" and "scaffoldPattern cfg = Some KEBAB_CASE"
    and "mkdir_error env = None"
  shows "scaffold_name rt cfg (js ''OrderTotal'') = js ''order-total'' \<and>
         run rt env (constructor (Some (js ''usecase'')) (Some (js ''OrderTotal'')) flag) =
           (None,
            [Mkdir (js ''src/order-total''),
             CopyTpl (js ''usecase.tpl'') (js ''src/order-total/order-total.usecase.ts'')
               (js ''OrderTotal'')])"
proof -
  have n: "scaffold_name rt cfg (js ''OrderTotal'') = js ''order-total''"
    using assms by (simp add: scaffold_name_def toKebabCase_ascii is_ascii_js_examples kebab_examples)
  have c: "toPascalCase rt (js ''order-total'') = js ''OrderTotal''"
    using assms(1) by (simp add: toPascalCase_ascii is_ascii_js_examples pascal_examples)
  have w: "writing rt env cfg \<lparr>schematic = js ''usecase'', name = js ''OrderTotal''\<rparr> =
      (Inr (), [Mkdir (js ''src/order-total''),
             CopyTpl (js ''usecase.tpl'') (js ''src/order-total/order-total.usecase.ts'')
               (js ''OrderTotal'')])"
    using assms(4) by (simp add: writing_def n c) (simp add: js_def)
  show ?thesis
    using assms(2) by (simp add: n run_def initializing_def prompting_arguments validate_usecase w)
qed

theorem usecase_OrderTotal_kebab_witness:
  "ascii_cased ascii_runtime \<and>
   config_file \<lparr>config_file = Some \<lparr>scaffoldPattern = Some KEBAB_CASE\<rparr>, list_answer = [],
      input_answer = [], mkdir_error = None\<rparr> = Some \<lparr>scaffoldPattern = Some KEBAB_CASE\<rparr> \<and>
   run ascii_runtime
     \<lparr>config_file = Some \<lparr>scaffoldPattern = Some KEBAB_CASE\<rparr>, list_answer = [],
      input_answer = [], mkdir_error = None\<rparr>
     (constructor (Some (js ''usecase'')) (Some (js ''OrderTotal'')) None) =
     (None,
      [Mkdir (js ''src/order-total''),
       CopyTpl (js ''usecase.tpl'') (js ''src/order-total/order-total.usecase.ts'')
         (js ''OrderTotal'')])"
  using ascii_cased_ascii_runtime
    usecase_OrderTotal_kebab [OF ascii_cased_ascii_runtime,
      of "\<lparr>config_file = Some \<lparr>scaffoldPattern = Some KEBAB_CASE\<rparr>, list_answer = [],
           input_answer = [], mkdir_error = None\<rparr>" "\<lparr>scaffoldPattern = Some KEBAB_CASE\<rparr>" None]
  by simp

text \<open>
  C3. The claim: a configuration that names no pattern is loaded with the pattern
  \<open>kebab-case\<close>, so the folder name is the kebab-case form of the raw name. The code
  has no default: the loaded configuration has no pattern, no case of the \<open>switch\<close>
  applies, and the folder name of \<open>OrderTotal\<close> is \<open>OrderTotal\<close>, not \<open>order-total\<close>.
\<close>

theorem no_pattern_not_kebab:
  "initializing \<lparr>config_file = Some \<lparr>scaffoldPattern = None\<rparr>, list_answer = [],
      input_answer = [], mkdir_error = None\<rparr> = Inr \<lparr>scaffoldPattern = None\<rparr> \<and>
   scaffoldPattern \<lparr>scaffoldPattern = None\<rparr> \<noteq> Some KEBAB_CASE \<and>
   scaffold_name ascii_runtime \<lparr>scaffoldPattern = None\<rparr> (js ''OrderTotal'') \<noteq>
     toKebabCase ascii_runtime (js ''OrderTotal'')"
  by (simp add: initializing_def scaffold_name_def kebab_examples) (simp add: js_def)

text \<open>
  C3 as amended: if the configuration exists and names no pattern, it is loaded as it
  is, without a pattern, and the folder name is the raw name, unchanged.
\<close>

theorem no_pattern_keeps_name:
  assumes "config_file env = Some cfg" and "scaffoldPattern cfg = None"
  shows "initializing env = Inr cfg \<and> scaffold_name rt cfg n = n"
  using assms by (simp add: initializing_def scaffold_name_def)

theorem no_pattern_keeps_name_witness:
  "config_file \<lparr>config_file = Some \<lparr>scaffoldPattern = None\<rparr>, list_answer = [],
      input_answer = [], mkdir_error = None\<rparr> = Some \<lparr>scaffoldPattern = None\<rparr> \<and>
   scaffoldPattern \<lparr>scaffoldPattern = None\<rparr> = None \<and>
   scaffold_name ascii_runtime \<lparr>scaffoldPattern = None\<rparr> (js ''OrderTotal'') = js ''OrderTotal''"
  using no_pattern_keeps_name
    [of "\<lparr>config_file = Some \<lparr>scaffoldPattern = None\<rparr>, list_answer = [],
          input_answer = [], mkdir_error = None\<rparr>" "\<lparr>scaffoldPattern = None\<rparr>"
        ascii_runtime "js ''OrderTotal''"]
  by simp

text \<open>
  C4. The claim: \<open>validate\<close> fails exactly when the schematic is none of \<open>usecase\<close>,
  \<open>controller\<close>, \<open>dto\<close>, \<open>service\<close>, and the error names the offending value and all
  four kinds. The first part holds (\<open>validate_result\<close>) and the error names the value
  (\<open>validate_names_kind\<close>), but its message lists three kinds only: for the schematic
  \<open>widget\<close> it names \<open>usecase\<close>, \<open>controller\<close> and \<open>service\<close> and not \<open>dto\<close>.
\<close>

theorem validate_message_omits_dto:
  "validate \<lparr>schematic = js ''widget'', name = js ''OrderTotal''\<rparr> =
     Inl (UnsupportedSchematic (js ''widget'')) \<and>
   mentions (message (UnsupportedSchematic (js ''widget''))) (js ''widget'') \<and>
   mentions (message (UnsupportedSchematic (js ''widget''))) (js ''usecase'') \<and>
   mentions (message (UnsupportedSchematic (js ''widget''))) (js ''controller'') \<and>
   mentions (message (UnsupportedSchematic (js ''widget''))) (js ''service'') \<and>
   \<not> mentions (message (UnsupportedSchematic (js ''widget''))) (js ''dto'')"
  by (simp add: validate_def schematicValidation_def UnsupportedSchematic_def js_def)

text \<open>
  C5. When \<open>expressots.config.ts\<close> is missing, the run ends in \<open>initializing\<close> with the
  error of the missing configuration, and nothing has been done by then: no question
  has been asked.
\<close>

theorem config_missing_aborts:
  assumes "config_file env = None"
  shows "run rt env opts = (Some ConfigMissing, []) \<and> \<not> list_ex is_prompt (snd (run rt env opts))"
  using assms by (simp add: run_def initializing_def)

theorem config_missing_aborts_witness:
  "config_file \<lparr>config_file = None, list_answer = js ''usecase'', input_answer = js ''OrderTotal'',
      mkdir_error = None\<rparr> = None \<and>
   run ascii_runtime
     \<lparr>config_file = None, list_answer = js ''usecase'', input_answer = js ''OrderTotal'',
      mkdir_error = None\<rparr> (constructor None None None) = (Some ConfigMissing, [])"
  using config_missing_aborts
    [of "\<lparr>config_file = None, list_answer = js ''usecase'', input_answer = js ''OrderTotal'',
          mkdir_error = None\<rparr>" ascii_runtime "constructor None None None"]
  by simp

text \<open>
  C6. The claim: \<open>toPascalCase\<close> is idempotent on every string. It is not: the
  uppercase form of the ligature U+0587 is the two capitals U+0535 U+0552, which the
  regular expression does not separate, so that a second application lowercases the
  second one to U+0582.
\<close>

theorem toPascalCase_not_idempotent:
  "toPascalCase excerpt_runtime (toPascalCase excerpt_runtime [0x587]) \<noteq>
     toPascalCase excerpt_runtime [0x587]"
  by (simp add: toPascalCase_def split_def matcher_def char_classes capitalize_def
      excerpt_runtime_def excerpt_upper_def excerpt_lower_def ascii_upper_def ascii_lower_def)

text \<open>
  C6 as amended: \<open>toPascalCase\<close> is idempotent on every string of ASCII characters,
  \<open>toPascalCase(toPascalCase(s)) = toPascalCase(s)\<close>, in every runtime that converts
  the case of ASCII strings as JavaScript does.
\<close>

theorem toPascalCase_idempotent_ascii:
  assumes "ascii_cased rt" and "is_ascii s"
  shows "toPascalCase rt (toPascalCase rt s) = toPascalCase rt s"
proof -
  have "toPascalCase rt s = toPascalCase ascii_runtime s"
    using assms by (rule toPascalCase_ascii)
  moreover have "toPascalCase rt (toPascalCase ascii_runtime s) =
      toPascalCase ascii_runtime (toPascalCase ascii_runtime s)"
    using assms(1) is_ascii_toPascalCase [OF assms(2)] by (rule toPascalCase_ascii)
  ultimately show ?thesis
    by (simp add: toPascalCase_ascii_runtime_idem)
qed

theorem toPascalCase_idempotent_ascii_witness:
  "ascii_cased excerpt_runtime \<and> is_ascii (js ''user_profile'') \<and>
   toPascalCase excerpt_runtime (toPascalCase excerpt_runtime (js ''user_profile'')) =
     toPascalCase excerpt_runtime (js ''user_profile'')"
  using ascii_cased_excerpt_runtime is_ascii_js_examples(1)
    toPascalCase_idempotent_ascii [OF ascii_cased_excerpt_runtime is_ascii_js_examples(1)]
  by simp




text \<open>
  C8. The claim: \<open>toKebabCase\<close> puts a hyphen between every adjacent pair of a lowercase
  letter and an uppercase letter, then lowercases the whole string, and does not cut
  at underscores or spaces. The regular expression knows the pairs of \<open>a\<close> to \<open>z\<close> and
  \<open>A\<close> to \<open>Z\<close> only: U+0565 is a lowercase letter and U+0552 an uppercase letter, and the
  code puts no hyphen between them.
\<close>

theorem toKebabCase_no_hyphen_between_letters:
  "lowercase_letter excerpt_runtime 0x565 \<and> uppercase_letter excerpt_runtime 0x552 \<and>
   toKebabCase excerpt_runtime [0x565, 0x552] = [0x565, 0x582] \<and>
   kebab_worded excerpt_runtime [0x565, 0x552] = [0x565, 45, 0x582] \<and>
   toKebabCase excerpt_runtime [0x565, 0x552] \<noteq> kebab_worded excerpt_runtime [0x565, 0x552]"
  by (simp add: toKebabCase_def kebab_worded_def described_eval)

text \<open>
  C8 as amended: \<open>toKebabCase\<close> puts a hyphen between every adjacent pair of a small
  letter \<open>a\<close> to \<open>z\<close> and a capital \<open>A\<close> to \<open>Z\<close> and then lowercases the whole string. On
  a string of ASCII characters these are all the pairs of a lowercase and an uppercase
  letter. It does not cut at underscores or spaces: a string without a capital \<open>A\<close> to
  \<open>Z\<close> is only lowercased. So \<open>UserProfile\<close> gives \<open>user-profile\<close>, and \<open>already-kebab\<close>,
  \<open>user_profile\<close> and \<open>user profile\<close> stay as they are.
\<close>

theorem toKebabCase_hyphenates:
  assumes "ascii_cased rt"
  shows "toKebabCase rt s = kebab_amended rt s \<and>
         (is_ascii s \<longrightarrow> toKebabCase rt s = kebab_worded rt s) \<and>
         (list_all (\<lambda>c. \<not> is_AZ c) t \<longrightarrow> toKebabCase rt t = toLowerCase rt t) \<and>
         toKebabCase rt (js ''UserProfile'') = js ''user-profile'' \<and>
         toKebabCase rt (js ''already-kebab'') = js ''already-kebab'' \<and>
         toKebabCase rt (js ''user_profile'') = js ''user_profile'' \<and>
         toKebabCase rt (js ''user profile'') = js ''user profile''"
proof -
  have amended: "toKebabCase rt s = kebab_amended rt s"
    by (simp add: toKebabCase_def kebab_amended_def kebab_described_def replace_pairs_hyphenate)
  have "toKebabCase rt s = kebab_worded rt s" if "is_ascii s"
    using assms that by (simp add: amended kebab_worded_ascii)
  moreover have "toKebabCase rt t = toLowerCase rt t" if "list_all (\<lambda>c. \<not> is_AZ c) t"
    using that by (simp add: toKebabCase_def replace_pairs_no_capital)
  ultimately show ?thesis
    using amended assms by (simp add: toKebabCase_ascii is_ascii_js_examples kebab_examples)
qed

theorem toKebabCase_hyphenates_witness:
  "ascii_cased excerpt_runtime \<and>
   is_ascii (js ''aBcD'') \<and>
   toKebabCase excerpt_runtime (js ''aBcD'') = js ''a-bc-d'' \<and>
   kebab_worded excerpt_runtime (js ''aBcD'') = js ''a-bc-d'' \<and>
   toKebabCase excerpt_runtime [0x565, 0x552] = [0x565, 0x582] \<and>
   list_all (\<lambda>c. \<not> is_AZ c) (js ''user_profile'') \<and>
   toKebabCase excerpt_runtime (js ''user_profile'') = toLowerCase excerpt_runtime (js ''user_profile'')"
proof -
  have a: "is_ascii (js ''aBcD'')"
    by (simp add: is_ascii_def js_def)
  have b: "list_all (\<lambda>c. \<not> is_AZ c) (js ''user_profile'')"
    by (simp add: js_def is_AZ_def)
  have c: "kebab_amended excerpt_runtime (js ''aBcD'') = js ''a-bc-d''"
    by (simp add: kebab_amended_def described_eval)
  have d: "kebab_amended excerpt_runtime [0x565, 0x552] = [0x565, 0x582]"
    by (simp add: kebab_amended_def described_eval)
  note w = toKebabCase_hyphenates [OF ascii_cased_excerpt_runtime, of "js ''aBcD''" "js ''user_profile''"]
  note v = toKebabCase_hyphenates [OF ascii_cased_excerpt_runtime, of "[0x565, 0x552]" "[]"]
  from w have "toKebabCase excerpt_runtime (js ''aBcD'') = kebab_amended excerpt_runtime (js ''aBcD'')"
    by blast
  with c have p: "toKebabCase excerpt_runtime (js ''aBcD'') = js ''a-bc-d''"
    by (simp only:)
  from w a have "toKebabCase excerpt_runtime (js ''aBcD'') = kebab_worded excerpt_runtime (js ''aBcD'')"
    by blast
  with p have q: "kebab_worded excerpt_runtime (js ''aBcD'') = js ''a-bc-d''"
    by (simp only:)
  from v have "toKebabCase excerpt_runtime [0x565, 0x552] = kebab_amended excerpt_runtime [0x565, 0x552]"
    by blast
  with d have r: "toKebabCase excerpt_runtime [0x565, 0x552] = [0x565, 0x582]"
    by (simp only:)
  from w b have "toKebabCase excerpt_runtime (js ''user_profile'') =
      toLowerCase excerpt_runtime (js ''user_profile'')"
    by blast
  with ascii_cased_excerpt_runtime a b p q r show ?thesis
    by blast
qed

text \<open>
  C9. The claim: the option \<open>spec\<close>, true by default, decides whether a companion spec
  file is written beside the generated file. The option is true by default, but no
  method reads it and it is not handed to the template: a run with \<open>spec\<close> true and a
  run with \<open>spec\<close> false do the same, and no run renders more than the one template.
\<close>

theorem spec_option_has_no_effect:
  "spec (constructor s n None) = True \<and>
   run rt env (constructor s n (Some True)) = run rt env (constructor s n (Some False)) \<and>
   length (filter is_copy (snd (run rt env (constructor s n flag)))) \<le> 1"
proof -
  have bound: "length (filter is_copy (snd (run rt env opts))) \<le> 1" for opts
  proof (cases "initializing env")
    case (Inl e)
    then show ?thesis by (simp add: run_def)
  next
    case (Inr cfg)
    obtain answers asked where p: "prompting env opts = (answers, asked)"
      by (cases "prompting env opts")
    with prompting_no_copy [of env opts] have a: "filter is_copy asked = []"
      by simp
    obtain r effects where w: "writing rt env cfg answers = (r, effects)"
      by (cases "writing rt env cfg answers")
    with writing_copies [of rt env cfg answers] have d: "length (filter is_copy effects) \<le> 1"
      by simp
    show ?thesis
      using Inr p a w d by (cases "validate answers"; cases r) (simp_all add: run_def)
  qed
  have d: "spec (constructor s n None) = True"
    by (simp add: constructor_def)
  have "prompting env (constructor s n (Some True)) = prompting env (constructor s n (Some False))"
    by (simp add: prompting_def constructor_def)
  then have r: "run rt env (constructor s n (Some True)) = run rt env (constructor s n (Some False))"
    by (simp only: run_def)
  from d r bound [of "constructor s n flag"] show ?thesis
    by simp
qed

text \<open>
  C10. \<open>toKebabCase\<close> is idempotent, \<open>toKebabCase(toKebabCase(s)) = toKebabCase(s)\<close> for
  every string: its result is lowercased, so it has no capital \<open>A\<close> to \<open>Z\<close> in front of
  which the second application could put a hyphen, and lowercasing it again changes
  nothing.
\<close>

theorem toKebabCase_idempotent:
  assumes "lower_stable rt"
  shows "toKebabCase rt (toKebabCase rt s) = toKebabCase rt s"
proof -
  from assms have "list_all (\<lambda>c. \<not> is_AZ c) (toLowerCase rt (replace_pairs s))"
    and "toLowerCase rt (toLowerCase rt (replace_pairs s)) = toLowerCase rt (replace_pairs s)"
    by (simp_all add: lower_stable_def)
  then show ?thesis
    by (simp add: toKebabCase_def replace_pairs_no_capital)
qed

theorem toKebabCase_idempotent_witness:
  "lower_stable excerpt_runtime \<and>
   toKebabCase excerpt_runtime (js ''UserProfile'') = js ''user-profile'' \<and>
   toKebabCase excerpt_runtime (toKebabCase excerpt_runtime (js ''UserProfile'')) =
     toKebabCase excerpt_runtime (js ''UserProfile'')"
proof -
  have "toKebabCase excerpt_runtime (js ''UserProfile'') = js ''user-profile''"
    using ascii_cased_excerpt_runtime
    by (simp add: toKebabCase_ascii is_ascii_js_examples kebab_examples)
  then show ?thesis
    using lower_stable_excerpt_runtime
      toKebabCase_idempotent [OF lower_stable_excerpt_runtime, of "js ''UserProfile''"]
    by simp
qed

end
